theory Spec2Isabelle
  imports Complex_Main
begin

section \<open>Python string and list primitives used by app.py\<close>

text \<open>
  A Python \<open>str\<close> is modelled as a \<open>string\<close> whose characters are code points below 256.
  \<open>is_space\<close> lists the code points below 256 for which Python's \<open>str.isspace\<close> holds;
  they are the separators of \<open>str.split()\<close> and what \<open>str.strip()\<close> removes.
\<close>

definition is_space :: "char \<Rightarrow> bool" where
  "is_space c = (of_char c \<in> {9, 10, 11, 12, 13, 28, 29, 30, 31, 32, 133, 160 :: nat})"

text \<open>\<open>str.split()\<close> without arguments: a left-to-right scan that collects maximal runs of
  non-space characters; \<open>cur\<close> is the word being collected.\<close>

fun split_ws_aux :: "string \<Rightarrow> string \<Rightarrow> string list" where
  "split_ws_aux cur [] = (if cur = [] then [] else [cur])"
| "split_ws_aux cur (c # cs) =
     (if is_space c then (if cur = [] then split_ws_aux [] cs else cur # split_ws_aux [] cs)
      else split_ws_aux (cur @ [c]) cs)"

definition split_ws :: "string \<Rightarrow> string list" where
  "split_ws s = split_ws_aux [] s"

text \<open>\<open>sep.join(xs)\<close>.\<close>

fun join :: "string \<Rightarrow> string list \<Rightarrow> string" where
  "join sep [] = []"
| "join sep [x] = x"
| "join sep (x # y # ys) = x @ sep @ join sep (y # ys)"

text \<open>\<open>xs[i:j]\<close>: a negative index counts from the end, and both indices are clamped to
  the range of the list.\<close>

definition slice_index :: "int \<Rightarrow> int \<Rightarrow> int" where
  "slice_index n i = (if i < 0 then max 0 (i + n) else min i n)"

definition py_slice :: "'a list \<Rightarrow> int \<Rightarrow> int \<Rightarrow> 'a list" where
  "py_slice xs i j =
     (let n = int (length xs); lo = slice_index n i; hi = slice_index n j
      in if lo < hi then take (nat (hi - lo)) (drop (nat lo) xs) else [])"


text \<open>\<open>s.strip()\<close>, \<open>s.startswith(p)\<close>, \<open>s.split(sep, maxsplit)\<close> for a non-empty
  separator and a non-negative \<open>maxsplit\<close> (the parts are cut at the leftmost occurrences
  of the separator, found by \<open>find_sub\<close>), and \<open>s.split(c)\<close> for a one-character
  separator, which cuts at every occurrence.\<close>

definition strip :: "string \<Rightarrow> string" where
  "strip s = rev (dropWhile is_space (rev (dropWhile is_space s)))"

definition startswith :: "string \<Rightarrow> string \<Rightarrow> bool" where
  "startswith s p = (take (length p) s = p)"

fun find_sub :: "string \<Rightarrow> string \<Rightarrow> nat option" where
  "find_sub sep [] = (if sep = [] then Some 0 else None)"
| "find_sub sep (c # cs) =
     (if startswith (c # cs) sep then Some 0 else map_option Suc (find_sub sep cs))"

fun split_max :: "string \<Rightarrow> nat \<Rightarrow> string \<Rightarrow> string list" where
  "split_max sep 0 s = [s]"
| "split_max sep (Suc m) s =
     (case find_sub sep s of
        None \<Rightarrow> [s]
      | Some i \<Rightarrow> take i s # split_max sep m (drop (i + length sep) s))"

fun split_char_aux :: "char \<Rightarrow> string \<Rightarrow> string \<Rightarrow> string list" where
  "split_char_aux sep cur [] = [cur]"
| "split_char_aux sep cur (c # cs) =
     (if c = sep then cur # split_char_aux sep [] cs else split_char_aux sep (cur @ [c]) cs)"

definition split_char :: "char \<Rightarrow> string \<Rightarrow> string list" where
  "split_char sep s = split_char_aux sep [] s"

text \<open>\<open>str(i)\<close> for an integer, as an f-string prints it.\<close>

fun digits :: "nat \<Rightarrow> string" where
  "digits n = (if n < 10 then [char_of (48 + n)] else digits (n div 10) @ [char_of (48 + n mod 10)])"

declare digits.simps [simp del]

definition str_int :: "int \<Rightarrow> string" where
  "str_int i = (if i < 0 then CHR ''-'' # digits (nat (- i)) else digits (nat i))"

text \<open>A \<open>dict\<close> keeps its keys in insertion order; assigning to a key that is present
  replaces the value in place. \<open>dict_get\<close> is \<open>d.get(k, default)\<close>.\<close>

fun dict_set :: "('k \<times> 'v) list \<Rightarrow> 'k \<Rightarrow> 'v \<Rightarrow> ('k \<times> 'v) list" where
  "dict_set [] k v = [(k, v)]"
| "dict_set ((k', v') # d) k v = (if k' = k then (k, v) # d else (k', v') # dict_set d k v)"

definition dict_get :: "('k \<times> 'v) list \<Rightarrow> 'k \<Rightarrow> 'v \<Rightarrow> 'v" where
  "dict_get d k dflt = (case map_of d k of None \<Rightarrow> dflt | Some v \<Rightarrow> v)"

datatype py_error = ValueError | TypeError | AttributeError | UnboundLocalError

section \<open>The frontmatter extractor\<close>

text \<open>
  The \<open>for\<close> loop of \<open>extract_frontmatter\<close> over the lines of the header. The tuple
  assignment \<open>key, value = line.split(':', 1)\<close> raises \<open>ValueError\<close> unless the split
  has exactly two parts.
\<close>

fun frontmatter_loop ::
  "(string \<times> string) list \<Rightarrow> string list \<Rightarrow> py_error + (string \<times> string) list" where
  "frontmatter_loop frontmatter [] = Inr frontmatter"
| "frontmatter_loop frontmatter (line # lines) =
     (if CHR '':'' \<in> set line then
        (case split_max '':'' 1 line of
           [key, val] \<Rightarrow> frontmatter_loop (dict_set frontmatter (strip key) (strip val)) lines
         | _ \<Rightarrow> Inl ValueError)
      else frontmatter_loop frontmatter lines)"

definition extract_frontmatter ::
  "string \<Rightarrow> py_error + ((string \<times> string) list \<times> string)" where
  "extract_frontmatter content =
     (if startswith content ''---'' then
        (let parts = split_max ''---'' 2 content
         in if length parts \<ge> 3 then
              (let frontmatter_text = strip (parts ! 1)
               in case frontmatter_loop [] (split_char CHR ''\<newline>'' frontmatter_text) of
                    Inl e \<Rightarrow> Inl e
                  | Inr frontmatter \<Rightarrow> Inr (frontmatter, strip (parts ! 2)))
            else Inr ([], content))
      else Inr ([], content))"

section \<open>The chunker\<close>


definition CHUNK_SIZE :: int where "CHUNK_SIZE = 500"
definition CHUNK_OVERLAP :: int where "CHUNK_OVERLAP = 50"

text \<open>
  The \<open>while\<close> loop of \<open>split_into_chunks\<close>, with the loop variables \<open>start\<close> and
  \<open>chunks\<close> as arguments. Nothing in the source bounds the number of iterations, so the
  loop is a partial function: \<open>None\<close> means that it never reaches \<open>return chunks\<close>.
\<close>

partial_function (option) chunk_loop ::
  "string list \<Rightarrow> int \<Rightarrow> int \<Rightarrow> int \<Rightarrow> string list \<Rightarrow> string list option" where
  "chunk_loop words chunk_size overlap start chunks =
     (if start < int (length words) then
        (let end = start + chunk_size;
             chunk_words = py_slice words start end;
             chunks' = chunks @ [join '' '' chunk_words]
         in if end \<ge> int (length words) then Some chunks'
            else chunk_loop words chunk_size overlap (end - overlap) chunks')
      else Some chunks)"

declare chunk_loop.simps [code]

definition split_into_chunks :: "string \<Rightarrow> int \<Rightarrow> int \<Rightarrow> string list option" where
  "split_into_chunks text chunk_size overlap =
     (let words = split_ws text
      in if int (length words) \<le> chunk_size then Some [text]
         else chunk_loop words chunk_size overlap 0 [])"


section \<open>The chunk identifier\<close>

text \<open>
  \<open>hashlib.md5(...).hexdigest()\<close> is a library function; \<open>generate_point_id\<close> takes it
  as the parameter \<open>md5_hex\<close>. \<open>unique_string\<close> is the local variable of that name.
\<close>

definition unique_string :: "string \<Rightarrow> string \<Rightarrow> int \<Rightarrow> string" where
  "unique_string path repo chunk_index = repo @ '':'' @ path @ '':chunk_'' @ str_int chunk_index"

definition generate_point_id :: "(string \<Rightarrow> string) \<Rightarrow> string \<Rightarrow> string \<Rightarrow> int \<Rightarrow> string" where
  "generate_point_id md5_hex path repo chunk_index = md5_hex (unique_string path repo chunk_index)"

section \<open>Requests, records and external services\<close>

text \<open>
  Payload values are strings or integers. Vectors (\<open>'v\<close>) and similarity scores
  (\<open>'s\<close>) are floating-point data that the handlers only pass on; they stay abstract.
  A response body is a JSON value, an HTTP error an \<open>HTTPException\<close> with status code
  and detail. Log output is not part of the model.
\<close>

datatype pval = PStr string | PInt int

record 'v PointStruct =
  id' :: string
  vector :: 'v
  payload :: "(string \<times> pval) list"

record 's ScoredPoint =
  sp_payload :: "(string \<times> pval) list"
  score :: 's

datatype 's json =
    JStr string
  | JInt int
  | JNum 's
  | JArr "'s json list"
  | JObj "(string \<times> 's json) list"

datatype http_error = HTTPException int string

fun str_error :: "py_error \<Rightarrow> string" where
  "str_error ValueError = ''not enough values to unpack (expected 2, got 1)''"
| "str_error TypeError = ''can only concatenate str (not int) to str''"
| "str_error AttributeError = ''NoneType object has no attribute chat''"
| "str_error UnboundLocalError = ''cannot access local variable answer''"

text \<open>How an f-string prints a payload value, the JSON value it becomes in a response,
  and \<open>x + 1\<close>, which raises \<open>TypeError\<close> on a string.\<close>

fun pval_str :: "pval \<Rightarrow> string" where
  "pval_str (PStr s) = s"
| "pval_str (PInt i) = str_int i"

fun pval_json :: "pval \<Rightarrow> 's json" where
  "pval_json (PStr s) = JStr s"
| "pval_json (PInt i) = JInt i"

fun add_one :: "pval \<Rightarrow> py_error + pval" where
  "add_one (PInt i) = Inr (PInt (i + 1))"
| "add_one (PStr s) = Inl TypeError"

text \<open>The \<open>for idx, result in enumerate(results)\<close> loop of \<open>rag_query\<close>, which fills
  \<open>context_parts\<close> and \<open>sources\<close>.\<close>

fun sources_loop ::
  "nat \<Rightarrow> 's ScoredPoint list \<Rightarrow> string list \<Rightarrow> 's json list \<Rightarrow>
   py_error + (string list \<times> 's json list)" where
  "sources_loop idx [] context_parts sources = Inr (context_parts, sources)"
| "sources_loop idx (result # results) context_parts sources =
     (let title = dict_get (sp_payload result) ''title'' (PStr ''Untitled'');
          content = dict_get (sp_payload result) ''full_chunk'' (PStr []);
          context_parts' = context_parts @
            [''[Document '' @ str_int (int idx + 1) @ '': '' @ pval_str title @ '']\<newline>'' @
             pval_str content @ ''\<newline>'']
      in case add_one (dict_get (sp_payload result) ''chunk_index'' (PInt 0)) of
           Inl e \<Rightarrow> Inl e
         | Inr position \<Rightarrow>
             sources_loop (Suc idx) results context_parts'
               (sources @
                [JObj [(''title'', pval_json title),
                       (''path'', pval_json (dict_get (sp_payload result) ''path'' (PStr []))),
                       (''score'', JNum (score result)),
                       (''chunk'', JStr (pval_str position @ ''/'' @
                          pval_str (dict_get (sp_payload result) ''total_chunks'' (PInt 1))))]]))"

text \<open>The calls a handler makes to the embedder, the vector index and the language
  models, in the order in which it makes them.\<close>

datatype 'v call =
    EmbedCall string
  | QueryCall 'v int
  | GroqCall string string
  | ClaudeCall string string
  | ScrollCall "(string \<times> string) list" nat
  | DeleteCall "string list"
  | UpsertCall "'v PointStruct list"

text \<open>
  The module's global clients. A call that raises returns \<open>Inl\<close> with the text of the
  exception. The index is a state \<open>'ix\<close> that \<open>delete\<close> and \<open>upsert\<close> return
  updated, together with the exception they raised, if any; \<open>scroll\<close> returns the ids of
  one page and the offset of the next page. \<open>groq_client\<close> and \<open>anthropic_client\<close> are
  \<open>None\<close> when the API key is not set.
\<close>

record ('v, 's, 'ix) services =
  INGEST_API_SECRET :: "string option"
  md5_hexdigest :: "string \<Rightarrow> string"
  embed :: "string \<Rightarrow> string + 'v"
  query_points :: "'v \<Rightarrow> int \<Rightarrow> string + 's ScoredPoint list"
  groq_client :: "(string \<Rightarrow> string \<Rightarrow> string + string) option"
  anthropic_client :: "(string \<Rightarrow> string \<Rightarrow> string + string) option"
  scroll :: "'ix \<Rightarrow> (string \<times> string) list \<Rightarrow> nat \<Rightarrow> string + (string list \<times> string option)"
  delete :: "'ix \<Rightarrow> string list \<Rightarrow> string option \<times> 'ix"
  upsert :: "'ix \<Rightarrow> 'v PointStruct list \<Rightarrow> string option \<times> 'ix"

record IngestPayload =
  path :: string
  repo :: string
  commit :: string
  deleted :: bool
  content :: string

record RAGRequest =
  query :: string
  limit :: int
  llm_provider :: string

section \<open>The ingest endpoint\<close>

text \<open>The branch \<open>if payload.deleted\<close> of \<open>ingest_document\<close>: one \<open>scroll\<close> call with
  \<open>limit=100\<close>; the returned \<open>next_page\<close> is not used.\<close>

definition ingest_document_deleted ::
  "('v, 's, 'ix) services \<Rightarrow> 'ix \<Rightarrow> IngestPayload \<Rightarrow> (http_error + 's json) \<times> 'ix \<times> 'v call list" where
  "ingest_document_deleted sv ix pl =
     (let scroll_filter = [(''path'', path pl), (''repo'', repo pl)]
      in case scroll sv ix scroll_filter 100 of
           Inl e \<Rightarrow> (Inl (HTTPException 500 (''Delete failed: '' @ e)), ix, [ScrollCall scroll_filter 100])
         | Inr (point_ids, next_page) \<Rightarrow>
             (let response = JObj [(''status'', JStr ''success''), (''action'', JStr ''deleted''),
                                   (''chunks_deleted'', JInt (int (length point_ids)))]
              in if point_ids \<noteq> [] then
                   (case delete sv ix point_ids of
                      (Some e, ix') \<Rightarrow>
                        (Inl (HTTPException 500 (''Delete failed: '' @ e)), ix',
                         [ScrollCall scroll_filter 100, DeleteCall point_ids])
                    | (None, ix') \<Rightarrow>
                        (Inr response, ix', [ScrollCall scroll_filter 100, DeleteCall point_ids]))
                 else (Inr response, ix, [ScrollCall scroll_filter 100])))"

text \<open>The \<open>for idx, chunk in enumerate(chunks)\<close> loop: each chunk is embedded and its
  point appended to \<open>points\<close>; an exception of the embedder ends the loop.\<close>

fun embed_loop ::
  "('v, 's, 'ix) services \<Rightarrow> IngestPayload \<Rightarrow> (string \<times> string) list \<Rightarrow> nat \<Rightarrow> nat \<Rightarrow> string list \<Rightarrow>
   'v PointStruct list \<Rightarrow> (string + 'v PointStruct list) \<times> 'v call list" where
  "embed_loop sv pl frontmatter total_chunks idx [] points = (Inr points, [])"
| "embed_loop sv pl frontmatter total_chunks idx (chunk # chunks) points =
     (case embed sv chunk of
        Inl e \<Rightarrow> (Inl e, [EmbedCall chunk])
      | Inr embedding_vector \<Rightarrow>
          (let point_id = generate_point_id (md5_hexdigest sv) (path pl) (repo pl) (int idx);
               metadata = [(''path'', PStr (path pl)), (''repo'', PStr (repo pl)),
                           (''commit'', PStr (commit pl)),
                           (''title'', PStr (dict_get frontmatter ''title'' [])),
                           (''description'', PStr (dict_get frontmatter ''description'' [])),
                           (''tags'', PStr (dict_get frontmatter ''tags'' [])),
                           (''chunk_index'', PInt (int idx)),
                           (''total_chunks'', PInt (int total_chunks)),
                           (''content'', PStr (take 500 chunk)),
                           (''full_chunk'', PStr chunk)];
               point = \<lparr>id' = point_id, vector = embedding_vector, payload = metadata\<rparr>;
               (r, calls) = embed_loop sv pl frontmatter total_chunks (Suc idx) chunks (points @ [point])
           in (r, EmbedCall chunk # calls)))"

text \<open>The ingestion branch. \<open>None\<close> means that the handler never returns, which can only
  come from the chunker's loop.\<close>

definition ingest_document_upsert ::
  "('v, 's, 'ix) services \<Rightarrow> 'ix \<Rightarrow> IngestPayload \<Rightarrow>
   ((http_error + 's json) \<times> 'ix \<times> 'v call list) option" where
  "ingest_document_upsert sv ix pl =
     (case extract_frontmatter (content pl) of
        Inl e \<Rightarrow> Some (Inl (HTTPException 500 (''Ingestion failed: '' @ str_error e)), ix, [])
      | Inr (frontmatter, clean_content) \<Rightarrow>
          (let word_count = length (split_ws clean_content)
           in case split_into_chunks clean_content CHUNK_SIZE CHUNK_OVERLAP of
                None \<Rightarrow> None
              | Some chunks \<Rightarrow>
                  (case embed_loop sv pl frontmatter (length chunks) 0 chunks [] of
                     (Inl e, calls) \<Rightarrow>
                       Some (Inl (HTTPException 500 (''Ingestion failed: '' @ e)), ix, calls)
                   | (Inr points, calls) \<Rightarrow>
                       (case upsert sv ix points of
                          (Some e, ix') \<Rightarrow>
                            Some (Inl (HTTPException 500 (''Ingestion failed: '' @ e)), ix',
                                  calls @ [UpsertCall points])
                        | (None, ix') \<Rightarrow>
                            Some (Inr (JObj [(''status'', JStr ''success''),
                                             (''action'', JStr ''ingested''),
                                             (''path'', JStr (path pl)),
                                             (''title'', JStr (dict_get frontmatter ''title'' ''N/A'')),
                                             (''word_count'', JInt (int word_count)),
                                             (''chunks_created'', JInt (int (length chunks)))]),
                                  ix', calls @ [UpsertCall points])))))"

definition ingest_document ::
  "('v, 's, 'ix) services \<Rightarrow> 'ix \<Rightarrow> IngestPayload \<Rightarrow> string option \<Rightarrow>
   ((http_error + 's json) \<times> 'ix \<times> 'v call list) option" where
  "ingest_document sv ix pl x_ingest_token =
     (if x_ingest_token = None \<or> x_ingest_token = Some [] \<or> x_ingest_token \<noteq> INGEST_API_SECRET sv
      then Some (Inl (HTTPException 401 ''Invalid token''), ix, [])
      else if deleted pl then Some (ingest_document_deleted sv ix pl)
      else ingest_document_upsert sv ix pl)"

section \<open>The RAG endpoint\<close>

definition quoted :: "string \<Rightarrow> string" where
  "quoted s = [CHR 0x27] @ s @ [CHR 0x27]"

definition system_prompt :: string where
  "system_prompt =
     ''You are a helpful AI assistant that answers questions based on provided documents.\<newline>\<newline>'' @
     ''Rules:\<newline>- Only use information from the documents provided\<newline>'' @
     ''- If documents don'' @ [CHR 0x27] @ ''t contain the answer, say so clearly\<newline>'' @
     ''- Be concise and direct\<newline>- Provide specific details when available''"

definition user_prompt :: "string \<Rightarrow> string \<Rightarrow> string" where
  "user_prompt context q =
     ''Based on these documents:\<newline>\<newline>'' @ context @ ''\<newline>\<newline>Question: '' @ q @
     ''\<newline>\<newline>Provide a clear answer based only on the documents above.''"

text \<open>The dictionary returned after the language model has answered.\<close>

definition rag_response ::
  "RAGRequest \<Rightarrow> 's json list \<Rightarrow> nat \<Rightarrow> string \<Rightarrow> string \<Rightarrow> 's json" where
  "rag_response request sources chunks_used answer model_used =
     JObj [(''answer'', JStr answer),
           (''sources'', JArr sources),
           (''query'', JStr (query request)),
           (''chunks_used'', JInt (int chunks_used)),
           (''llm_provider'', JStr (llm_provider request)),
           (''model_used'', JStr model_used)]"

text \<open>
  \<open>rag_query\<close> returns the response or the \<open>HTTPException\<close> it raises, and the calls it
  made. An exception other than \<open>HTTPException\<close> is caught and raised again with status
  500. The branches for a missing client and for a provider that is neither name are
  what Python would do there (\<open>AttributeError\<close>, \<open>UnboundLocalError\<close>).
\<close>

definition rag_query ::
  "('v, 's, 'ix) services \<Rightarrow> RAGRequest \<Rightarrow> (http_error + 's json) \<times> 'v call list" where
  "rag_query sv request =
     (if llm_provider request \<notin> set [''groq'', ''claude''] then
        (Inl (HTTPException 400 (''llm_provider must be '' @ quoted ''groq'' @ '' or '' @ quoted ''claude'')), [])
      else if llm_provider request = ''groq'' \<and> groq_client sv = None then
        (Inl (HTTPException 503 ''Groq is not configured''), [])
      else if llm_provider request = ''claude'' \<and> anthropic_client sv = None then
        (Inl (HTTPException 503 ''Claude is not configured''), [])
      else
        (case embed sv (query request) of
           Inl e \<Rightarrow> (Inl (HTTPException 500 (''RAG failed: '' @ e)), [EmbedCall (query request)])
         | Inr query_embedding \<Rightarrow>
             (let calls = [EmbedCall (query request), QueryCall query_embedding (limit request)]
              in case query_points sv query_embedding (limit request) of
                   Inl e \<Rightarrow> (Inl (HTTPException 500 (''RAG failed: '' @ e)), calls)
                 | Inr results \<Rightarrow>
                     if results = [] then
                       (Inr (JObj [(''answer'', JStr (''I couldn'' @ [CHR 0x27] @
                                       ''t find any relevant information to answer your question.'')),
                                   (''sources'', JArr []),
                                   (''query'', JStr (query request)),
                                   (''llm_provider'', JStr (llm_provider request))]),
                        calls)
                     else
                       (case sources_loop 0 results [] [] of
                          Inl e \<Rightarrow> (Inl (HTTPException 500 (''RAG failed: '' @ str_error e)), calls)
                        | Inr (context_parts, sources) \<Rightarrow>
                            (let context = join ''\<newline>'' context_parts;
                                 prompt = user_prompt context (query request)
                             in if llm_provider request = ''groq'' then
                                  (case groq_client sv of
                                     None \<Rightarrow>
                                       (Inl (HTTPException 500 (''RAG failed: '' @ str_error AttributeError)), calls)
                                   | Some create \<Rightarrow>
                                       (case create system_prompt prompt of
                                          Inl e \<Rightarrow>
                                            (Inl (HTTPException 500 (''RAG failed: '' @ e)),
                                             calls @ [GroqCall system_prompt prompt])
                                        | Inr answer \<Rightarrow>
                                            (Inr (rag_response request sources (length results) answer
                                                    ''llama-3.3-70b-versatile''),
                                             calls @ [GroqCall system_prompt prompt])))
                                else if llm_provider request = ''claude'' then
                                  (case anthropic_client sv of
                                     None \<Rightarrow>
                                       (Inl (HTTPException 500 (''RAG failed: '' @ str_error AttributeError)), calls)
                                   | Some create \<Rightarrow>
                                       (case create system_prompt prompt of
                                          Inl e \<Rightarrow>
                                            (Inl (HTTPException 500 (''RAG failed: '' @ e)),
                                             calls @ [ClaudeCall system_prompt prompt])
                                        | Inr answer \<Rightarrow>
                                            (Inr (rag_response request sources (length results) answer
                                                    ''claude-sonnet-4-5-20250929''),
                                             calls @ [ClaudeCall system_prompt prompt])))
                                else
                                  (Inl (HTTPException 500 (''RAG failed: '' @ str_error UnboundLocalError)),
                                   calls))))))"

section \<open>A reference vector index\<close>

text \<open>
  Modelled from the spec: the vector store behind \<open>qdrant_client\<close> is an external
  service whose code is not in the repository. This index is a list of points in scroll
  order. \<open>scroll\<close> returns the ids of the first \<open>limit\<close> points that match every
  condition of the filter and the id at which the next page starts, if there is one;
  \<open>delete\<close> removes the points with the given ids; \<open>upsert\<close> inserts or replaces by id.
\<close>

definition matches :: "(string \<times> string) list \<Rightarrow> 'v PointStruct \<Rightarrow> bool" where
  "matches flt p = list_all (\<lambda>(k, v). map_of (payload p) k = Some (PStr v)) flt"

definition list_scroll ::
  "'v PointStruct list \<Rightarrow> (string \<times> string) list \<Rightarrow> nat \<Rightarrow> string + (string list \<times> string option)" where
  "list_scroll ix flt page_size =
     (let hits = filter (matches flt) ix
      in Inr (map id' (take page_size hits),
              if page_size < length hits then Some (id' (hits ! page_size)) else None))"

definition list_delete :: "'v PointStruct list \<Rightarrow> string list \<Rightarrow> string option \<times> 'v PointStruct list" where
  "list_delete ix ids = (None, filter (\<lambda>p. id' p \<notin> set ids) ix)"

definition upsert_point :: "'v PointStruct \<Rightarrow> 'v PointStruct list \<Rightarrow> 'v PointStruct list" where
  "upsert_point p ix =
     (if id' p \<in> set (map id' ix) then map (\<lambda>q. if id' q = id' p then p else q) ix else ix @ [p])"

definition list_upsert ::
  "'v PointStruct list \<Rightarrow> 'v PointStruct list \<Rightarrow> string option \<times> 'v PointStruct list" where
  "list_upsert ix points = (None, fold upsert_point points ix)"

section \<open>The frontmatter as the specification words it\<close>

text \<open>
  This definition follows the specification, not the source: the header is read as
  \<open>key: value\<close> lines, the first colon of a line separates key and value, both sides are
  trimmed, and a line without a colon is skipped. The assignments are then stored in
  order, a later one for the same key replacing the earlier value. It is compared with
  \<open>extract_frontmatter\<close> below.
\<close>

definition spec_assignments :: "string list \<Rightarrow> (string \<times> string) list" where
  "spec_assignments lines =
     map (\<lambda>l. (strip (takeWhile (\<lambda>c. c \<noteq> CHR '':'') l),
                strip (tl (dropWhile (\<lambda>c. c \<noteq> CHR '':'') l))))
         (filter (\<lambda>l. CHR '':'' \<in> set l) lines)"

definition spec_frontmatter :: "string list \<Rightarrow> (string \<times> string) list" where
  "spec_frontmatter lines = fold (\<lambda>(k, v) d. dict_set d k v) (spec_assignments lines) []"

section \<open>Stand-ins for the external services, for concrete runs\<close>

text \<open>
  A concrete set of services on which the handlers can be run: the embedder returns a
  one-component vector, the index is the reference index and a similarity query finds
  no point, Groq is configured and always answers, Claude is not configured, and the
  hash is replaced by the identity so that identifiers can be read.
\<close>

definition example_services :: "(int list, int, int list PointStruct list) services" where
  "example_services =
     \<lparr>INGEST_API_SECRET = Some ''secret'',
      md5_hexdigest = (\<lambda>s. s),
      embed = (\<lambda>s. Inr [int (length s)]),
      query_points = (\<lambda>v n. Inr []),
      groq_client = Some (\<lambda>system user. Inr ''an answer''),
      anthropic_client = None,
      scroll = list_scroll,
      delete = list_delete,
      upsert = list_upsert\<rparr>"

text \<open>Points as ingestion stores them for the \<open>n\<close> chunks of the document \<open>(r, p)\<close>:
  the identifier of chunk \<open>i\<close> (with the identity as hash) and, of the payload, the fields
  \<open>path\<close>, \<open>repo\<close>, \<open>chunk_index\<close> and \<open>total_chunks\<close>. The vector and the other
  payload fields play no part in a deletion.\<close>

definition ingested_points :: "string \<Rightarrow> string \<Rightarrow> nat \<Rightarrow> int list PointStruct list" where
  "ingested_points p r n =
     map (\<lambda>i. \<lparr>id' = generate_point_id (\<lambda>s. s) p r (int i), vector = [],
               payload = [(''path'', PStr p), (''repo'', PStr r), (''chunk_index'', PInt (int i)),
                          (''total_chunks'', PInt (int n))]\<rparr>) [0..<n]"

section \<open>Properties of the chunker\<close>

subsection \<open>The loop\<close>

lemma py_slice_window:
  assumes "0 \<le> i"
  shows "py_slice xs i (i + int c) = take c (drop (nat i) xs)"
proof (cases "i < int (length xs)")
  case True
  with assms show ?thesis
    by (auto simp: py_slice_def slice_index_def Let_def min_def)
next
  case False
  with assms show ?thesis
    by (auto simp: py_slice_def slice_index_def Let_def min_def)
qed

lemma chunk_loop_diverges:
  assumes "chunk_size < int (length words)" "chunk_size \<le> overlap" "words \<noteq> []" "start \<le> 0"
  shows "chunk_loop words chunk_size overlap start chunks = None"
proof -
  let ?stuck = "\<lambda>ws cs ov st. cs < int (length ws) \<and> cs \<le> ov \<and> ws \<noteq> [] \<and> st \<le> 0"
  have never: "\<not> ?stuck ws cs ov st" if "chunk_loop ws cs ov st ch = Some r" for ws cs ov st ch r
  proof (rule chunk_loop.raw_induct [where P = "\<lambda>ws cs ov st ch r. \<not> ?stuck ws cs ov st", OF _ that])
    fix loop ws cs ov st ch r
    assume IH: "\<And>ws cs ov st ch r. loop ws cs ov st ch = Some r \<Longrightarrow> \<not> ?stuck ws cs ov st"
      and body: "(if st < int (length ws)
           then let end = st + cs; chunk_words = py_slice ws st end;
                    chunks' = ch @ [join '' '' chunk_words]
                in if int (length ws) \<le> end then Some chunks'
                   else loop ws cs ov (end - ov) chunks'
           else Some ch) = Some r"
    show "\<not> ?stuck ws cs ov st"
    proof
      assume inv: "?stuck ws cs ov st"
      then have "0 < length ws" by simp
      with inv have "st < int (length ws)" "\<not> int (length ws) \<le> st + cs" by linarith+
      with body have "loop ws cs ov (st + cs - ov) (ch @ [join '' '' (py_slice ws st (st + cs))]) = Some r"
        by (simp add: Let_def)
      from IH[OF this] inv show False by auto
    qed
  qed
  show ?thesis
  proof (cases "chunk_loop words chunk_size overlap start chunks")
    case None
    then show ?thesis .
  next
    case (Some r)
    from never[OF this] assms show ?thesis by blast
  qed
qed

lemma chunk_loop_windows:
  assumes "overlap < chunk_size"
  shows "\<exists>k. chunk_loop words chunk_size overlap start chunks =
           Some (chunks @ map (\<lambda>j. join '' '' (py_slice words (start + int j * (chunk_size - overlap))
                                                   (start + int j * (chunk_size - overlap) + chunk_size))) [0..<k])
         \<and> (\<forall>j. Suc j < k \<longrightarrow> start + int j * (chunk_size - overlap) + chunk_size < int (length words))
         \<and> (\<forall>j<k. start + int j * (chunk_size - overlap) < int (length words))
         \<and> (k = 0 \<longleftrightarrow> int (length words) \<le> start)
         \<and> (0 < k \<longrightarrow> int (length words) \<le> start + int (k - 1) * (chunk_size - overlap) + chunk_size
                    \<or> int (length words) \<le> start + int k * (chunk_size - overlap))"
    (is "\<exists>k. ?Q start chunks k")
proof (induction "nat (int (length words) - start)" arbitrary: start chunks rule: less_induct)
  case less
  let ?n = "int (length words)" and ?step = "chunk_size - overlap"
  let ?w = "\<lambda>st j. join '' '' (py_slice words (st + int j * ?step) (st + int j * ?step + chunk_size))"
  consider (finished) "?n \<le> start" | (final) "start < ?n" "?n \<le> start + chunk_size"
    | (more) "start < ?n" "start + chunk_size < ?n" by linarith
  then show ?case
  proof cases
    case finished
    then have "?Q start chunks 0"
      by (subst chunk_loop.simps) simp
    then show ?thesis ..
  next
    case final
    then have "chunk_loop words chunk_size overlap start chunks = Some (chunks @ [?w start 0])"
      by (subst chunk_loop.simps) (simp add: Let_def)
    with final have "?Q start chunks 1" by simp
    then show ?thesis ..
  next
    case more
    let ?start' = "start + ?step"
    from more assms have "nat (?n - ?start') < nat (?n - start)" by linarith
    from less[OF this, of "chunks @ [?w start 0]"]
    obtain k where k: "?Q ?start' (chunks @ [?w start 0]) k" ..
    have shift: "?start' + int j * ?step = start + int (Suc j) * ?step" for j
      by (simp add: algebra_simps)
    from more have unfold: "chunk_loop words chunk_size overlap start chunks =
        chunk_loop words chunk_size overlap ?start' (chunks @ [?w start 0])"
      by (subst chunk_loop.simps) (simp add: Let_def algebra_simps)
    have "map (?w start) [0..<Suc k] = ?w start 0 # map (?w ?start') [0..<k]"
      unfolding shift by (simp add: map_upt_Suc del: upt_Suc)
    with k unfold have res: "chunk_loop words chunk_size overlap start chunks =
        Some (chunks @ map (?w start) [0..<Suc k])" by simp
    have inner: "\<forall>j. Suc j < Suc k \<longrightarrow> start + int j * ?step + chunk_size < ?n"
    proof (intro allI impI)
      fix j assume "Suc j < Suc k"
      show "start + int j * ?step + chunk_size < ?n"
      proof (cases j)
        case 0
        with more show ?thesis by simp
      next
        case (Suc j')
        with \<open>Suc j < Suc k\<close> k have "?start' + int j' * ?step + chunk_size < ?n" by simp
        then show ?thesis unfolding shift Suc .
      qed
    qed
    have starts: "\<forall>j<Suc k. start + int j * ?step < ?n"
    proof (intro allI impI)
      fix j assume "j < Suc k"
      show "start + int j * ?step < ?n"
      proof (cases j)
        case 0
        with more show ?thesis by simp
      next
        case (Suc j')
        with \<open>j < Suc k\<close> k have "?start' + int j' * ?step < ?n" by simp
        then show ?thesis unfolding shift Suc .
      qed
    qed
    have stop: "?n \<le> start + int (Suc k - 1) * ?step + chunk_size \<or> ?n \<le> start + int (Suc k) * ?step"
    proof (cases k)
      case 0
      with k have "?n \<le> ?start'" by simp
      with 0 show ?thesis by simp
    next
      case (Suc k')
      with k have "?n \<le> ?start' + int k' * ?step + chunk_size \<or> ?n \<le> ?start' + int k * ?step"
        by simp
      then show ?thesis unfolding shift Suc by simp
    qed
    from res inner starts stop more have "?Q start chunks (Suc k)" by simp
    then show ?thesis ..
  qed
qed

lemma split_ws_aux_replicate:
  "split_ws_aux [] (concat (replicate n ''w '')) = replicate n ''w''"
  by (induction n) (simp_all add: is_space_def)

lemma split_into_chunks_closed:
  fixes chunk_size :: nat
  assumes long: "chunk_size < length (split_ws text)" and ov: "overlap < int chunk_size"
  shows "\<exists>k. split_into_chunks text (int chunk_size) overlap =
             Some (map (\<lambda>i. join '' '' (take chunk_size (drop (i * nat (int chunk_size - overlap)) (split_ws text)))) [0..<k])
          \<and> (\<forall>i. Suc i < k \<longrightarrow> i * nat (int chunk_size - overlap) + chunk_size < length (split_ws text))
          \<and> (\<forall>i<k. i * nat (int chunk_size - overlap) < length (split_ws text))
          \<and> 0 < k
          \<and> (length (split_ws text) \<le> (k - 1) * nat (int chunk_size - overlap) + chunk_size
               \<or> length (split_ws text) \<le> k * nat (int chunk_size - overlap))"
proof -
  let ?ws = "split_ws text" and ?step = "nat (int chunk_size - overlap)"
  from ov have step: "int ?step = int chunk_size - overlap" by simp
  from chunk_loop_windows[OF ov, of ?ws 0 "[]"] obtain k where
    res: "chunk_loop ?ws (int chunk_size) overlap 0 [] =
            Some (map (\<lambda>j. join '' '' (py_slice ?ws (0 + int j * (int chunk_size - overlap))
                      (0 + int j * (int chunk_size - overlap) + int chunk_size))) [0..<k])"
    and inner: "\<forall>j. Suc j < k \<longrightarrow> 0 + int j * (int chunk_size - overlap) + int chunk_size < int (length ?ws)"
    and starts: "\<forall>j<k. 0 + int j * (int chunk_size - overlap) < int (length ?ws)"
    and k0: "k = 0 \<longleftrightarrow> int (length ?ws) \<le> 0"
    and stop: "0 < k \<longrightarrow> int (length ?ws) \<le> 0 + int (k - 1) * (int chunk_size - overlap) + int chunk_size
                    \<or> int (length ?ws) \<le> 0 + int k * (int chunk_size - overlap)"
    by auto
  have win: "py_slice ?ws (0 + int j * (int chunk_size - overlap))
               (0 + int j * (int chunk_size - overlap) + int chunk_size)
             = take chunk_size (drop (j * ?step) ?ws)" for j
  proof -
    have eq: "0 + int j * (int chunk_size - overlap) = int (j * ?step)"
      unfolding of_nat_mult step by simp
    have "py_slice ?ws (int (j * ?step)) (int (j * ?step) + int chunk_size)
            = take chunk_size (drop (nat (int (j * ?step))) ?ws)"
      by (rule py_slice_window) simp
    then show ?thesis by (simp only: eq nat_int)
  qed
  from long res have "split_into_chunks text (int chunk_size) overlap =
      Some (map (\<lambda>i. join '' '' (take chunk_size (drop (i * ?step) ?ws))) [0..<k])"
    unfolding win by (simp add: split_into_chunks_def)
  moreover have "\<forall>i. Suc i < k \<longrightarrow> i * ?step + chunk_size < length ?ws"
  proof (intro allI impI)
    fix i assume "Suc i < k"
    with inner have "int i * int ?step + int chunk_size < int (length ?ws)" unfolding step by simp
    then show "i * ?step + chunk_size < length ?ws" by (metis of_nat_add of_nat_less_iff of_nat_mult)
  qed
  moreover have "\<forall>i<k. i * ?step < length ?ws"
  proof (intro allI impI)
    fix i assume "i < k"
    with starts have "int i * int ?step < int (length ?ws)" unfolding step by simp
    then show "i * ?step < length ?ws" by (metis of_nat_less_iff of_nat_mult)
  qed
  moreover from k0 long have "0 < k" by auto
  moreover have "length ?ws \<le> (k - 1) * ?step + chunk_size \<or> length ?ws \<le> k * ?step"
  proof -
    from stop \<open>0 < k\<close> have "int (length ?ws) \<le> int (k - 1) * int ?step + int chunk_size
        \<or> int (length ?ws) \<le> int k * int ?step" unfolding step by simp
    then show ?thesis by (metis of_nat_add of_nat_le_iff of_nat_mult)
  qed
  ultimately show ?thesis by blast
qed

subsection \<open>Short texts\<close>

text \<open>
  Claim C9. A text whose whitespace-split word count is at most \<open>chunk_size\<close> is
  returned as exactly one chunk, and that chunk is the input text itself, with its
  spacing untouched (words are not re-joined). This covers the empty and the
  whitespace-only text, whose word count is 0.
\<close>

theorem split_into_chunks_single:
  "int (length (split_ws text)) \<le> chunk_size \<Longrightarrow>
   split_into_chunks text chunk_size overlap = Some [text]"
  by (simp add: split_into_chunks_def)

theorem split_into_chunks_single_witness:
  "int (length (split_ws ''  a  b '')) \<le> 2 \<and> split_into_chunks ''  a  b '' 2 1 = Some [''  a  b '']"
proof -
  have h: "int (length (split_ws ''  a  b '')) \<le> 2"
    by (simp add: split_ws_def is_space_def)
  from split_into_chunks_single[OF h, of 1] h show ?thesis by simp
qed

subsection \<open>Windows of a long text\<close>

text \<open>
  Claim C2. Let the text have more than \<open>chunk_size\<close> words and let
  \<open>overlap < chunk_size\<close>, where \<open>chunk_size\<close> is a number of words. Then
  \<open>split_into_chunks\<close> returns \<open>k\<close> chunks; chunk \<open>i\<close> is the space-joined window of
  \<open>chunk_size\<close> words taken at word offset \<open>i * (chunk_size - overlap)\<close>; every window
  but the last has exactly \<open>chunk_size\<close> words, the last one starts inside the text and
  may be shorter; and \<open>k\<close> is at most the ceiling of the word count divided by
  \<open>chunk_size - overlap\<close>. In particular 1200 words with \<open>chunk_size = 500\<close> and
  \<open>overlap = 50\<close> give exactly three chunks, at offsets 0, 450 and 900, the last one of
  300 words.
\<close>

theorem split_into_chunks_windows:
  fixes chunk_size :: nat and overlap :: int
  assumes long: "chunk_size < length (split_ws text)" and ov: "overlap < int chunk_size"
  shows "let ws = split_ws text; step = nat (int chunk_size - overlap) in
         (\<exists>k. split_into_chunks text (int chunk_size) overlap =
                 Some (map (\<lambda>i. join '' '' (take chunk_size (drop (i * step) ws))) [0..<k])
              \<and> (\<forall>i. Suc i < k \<longrightarrow> length (take chunk_size (drop (i * step) ws)) = chunk_size)
              \<and> (\<forall>i<k. i * step < length ws)
              \<and> int k \<le> \<lceil>real (length ws) / real step\<rceil>)
         \<and> (length ws = 1200 \<and> chunk_size = 500 \<and> overlap = 50 \<longrightarrow>
              split_into_chunks text 500 50 =
                Some [join '' '' (take 500 ws), join '' '' (take 500 (drop 450 ws)), join '' '' (drop 900 ws)]
              \<and> length (drop 900 ws) = 300)"
proof -
  define ws where "ws = split_ws text"
  define step where "step = nat (int chunk_size - overlap)"
  from ov have step_pos: "0 < step" by (simp add: step_def)
  from split_into_chunks_closed[OF long ov] obtain k where
    res: "split_into_chunks text (int chunk_size) overlap =
            Some (map (\<lambda>i. join '' '' (take chunk_size (drop (i * step) ws))) [0..<k])"
    and inner: "\<forall>i. Suc i < k \<longrightarrow> i * step + chunk_size < length ws"
    and starts: "\<forall>i<k. i * step < length ws"
    and kpos: "0 < k"
    and stop: "length ws \<le> (k - 1) * step + chunk_size \<or> length ws \<le> k * step"
    unfolding ws_def step_def by blast
  have full: "\<forall>i. Suc i < k \<longrightarrow> length (take chunk_size (drop (i * step) ws)) = chunk_size"
    using inner by fastforce
  have bound: "int k \<le> \<lceil>real (length ws) / real step\<rceil>"
  proof -
    from starts kpos have "(k - 1) * step < length ws" by simp
    then have "real (k - 1) * real step < real (length ws)"
      by (metis of_nat_less_iff of_nat_mult)
    with step_pos have "real (k - 1) < real (length ws) / real step"
      by (simp add: pos_less_divide_eq)
    then have "int (k - 1) < \<lceil>real (length ws) / real step\<rceil>"
      by (simp add: less_ceiling_iff)
    with kpos show ?thesis by linarith
  qed
  have example: "split_into_chunks text 500 50 =
        Some [join '' '' (take 500 ws), join '' '' (take 500 (drop 450 ws)), join '' '' (drop 900 ws)]
      \<and> length (drop 900 ws) = 300"
    if ex: "length ws = 1200" "chunk_size = 500" "overlap = 50"
  proof -
    from ex have st: "step = 450" by (simp add: step_def)
    have "k \<le> 3"
    proof (rule ccontr)
      assume "\<not> k \<le> 3"
      then have "Suc 2 < k" by simp
      with inner have "2 * step + chunk_size < length ws" by blast
      with ex st show False by simp
    qed
    moreover from stop ex st have "3 \<le> k" by auto
    ultimately have "k = 3" by simp
    then have "[0..<k] = [0, 1, 2]" by (simp add: eval_nat_numeral upt_rec)
    with res ex st show ?thesis by simp
  qed
  from res full starts bound example show ?thesis
    unfolding Let_def ws_def[symmetric] step_def[symmetric] by blast
qed

theorem split_into_chunks_windows_witness:
  "(500::nat) < length (split_ws (concat (replicate 1200 ''w ''))) \<and> (50::int) < int 500
   \<and> length (split_ws (concat (replicate 1200 ''w ''))) = 1200
   \<and> split_into_chunks (concat (replicate 1200 ''w '')) 500 50 =
        Some [join '' '' (replicate 500 ''w''), join '' '' (replicate 500 ''w''),
              join '' '' (replicate 300 ''w'')]"
proof -
  have ws: "split_ws (concat (replicate 1200 ''w '')) = replicate 1200 ''w''"
    unfolding split_ws_def by (rule split_ws_aux_replicate)
  have h1: "(500::nat) < length (split_ws (concat (replicate 1200 ''w '')))" and h2: "(50::int) < int 500"
    by (simp_all add: ws)
  from split_into_chunks_windows[OF h1 h2] h1 h2 show ?thesis
    by (simp add: ws Let_def)
qed

subsection \<open>Termination\<close>

text \<open>
  Claim C3, as amended. The source has no assertion on \<open>overlap\<close> and does not clamp it.
  \<open>split_into_chunks\<close> returns exactly when \<open>overlap < chunk_size\<close>, or the text has at
  most \<open>chunk_size\<close> words, or it has no words at all; in every other case the loop
  never reaches its \<open>return\<close>.
\<close>

theorem split_into_chunks_returns_iff:
  "(\<exists>chunks. split_into_chunks text chunk_size overlap = Some chunks) \<longleftrightarrow>
   (overlap < chunk_size \<or> int (length (split_ws text)) \<le> chunk_size \<or> split_ws text = [])"
proof (cases "int (length (split_ws text)) \<le> chunk_size")
  case True
  then show ?thesis by (simp add: split_into_chunks_def)
next
  case long: False
  show ?thesis
  proof (cases "overlap < chunk_size")
    case True
    from chunk_loop_windows[OF this, of "split_ws text" 0 "[]"] long True show ?thesis
      by (auto simp: split_into_chunks_def)
  next
    case False
    show ?thesis
    proof (cases "split_ws text = []")
      case True
      then show ?thesis
        by (simp add: split_into_chunks_def chunk_loop.simps)
    next
      case nonempty: False
      from long False have "chunk_loop (split_ws text) chunk_size overlap 0 [] = None"
        by (intro chunk_loop_diverges nonempty) simp_all
      with long False nonempty show ?thesis by (simp add: split_into_chunks_def)
    qed
  qed
qed

theorem split_into_chunks_returns_iff_witness:
  "(1::int) < 2 \<and> (\<exists>chunks. split_into_chunks ''a b c'' 2 1 = Some chunks)"
  using split_into_chunks_returns_iff[of "''a b c''" 2 1] by simp

text \<open>The claim as stated fails: with \<open>chunk_size = overlap = 2\<close> and three words the
  window never advances and the function does not return.\<close>

theorem split_into_chunks_no_guard_counterexample:
  "split_into_chunks ''a b c'' 2 2 = None"
  by (simp add: split_into_chunks_def split_ws_def is_space_def chunk_loop_diverges)

section \<open>Properties of the frontmatter extractor\<close>

lemma find_sub_char:
  "find_sub [c] s = (if c \<in> set s then Some (length (takeWhile (\<lambda>x. x \<noteq> c) s)) else None)"
  by (induction s) (auto simp: startswith_def)

lemma split_max_char:
  "c \<in> set s \<Longrightarrow>
   split_max [c] 1 s = [takeWhile (\<lambda>x. x \<noteq> c) s, tl (dropWhile (\<lambda>x. x \<noteq> c) s)]"
  by (simp add: find_sub_char dropWhile_eq_drop drop_Suc tl_drop takeWhile_eq_take[symmetric])

lemma frontmatter_loop_spec:
  "frontmatter_loop fm lines = Inr (fold (\<lambda>(k, v) d. dict_set d k v) (spec_assignments lines) fm)"
proof (induction lines arbitrary: fm)
  case Nil
  show ?case by (simp add: spec_assignments_def)
next
  case (Cons l lines)
  show ?case
  proof (cases "CHR '':'' \<in> set l")
    case True
    from split_max_char[OF this] have "split_max '':'' 1 l =
        [takeWhile (\<lambda>x. x \<noteq> CHR '':'') l, tl (dropWhile (\<lambda>x. x \<noteq> CHR '':'') l)]" .
    with True Cons.IH show ?thesis
      by (simp add: spec_assignments_def)
  next
    case False
    with Cons.IH show ?thesis by (simp add: spec_assignments_def)
  qed
qed

lemma find_sub_None:
  "sep \<noteq> [] \<Longrightarrow> find_sub sep s = None \<longleftrightarrow> (\<forall>j. \<not> startswith (drop j s) sep)"
proof (induction s)
  case Nil
  then show ?case by (auto simp: startswith_def)
next
  case (Cons c cs)
  show ?case
  proof (cases "startswith (c # cs) sep")
    case True
    then have "\<exists>j. startswith (drop j (c # cs)) sep" by (intro exI[of _ 0]) simp
    with True show ?thesis by simp
  next
    case False
    have "(\<forall>j. \<not> startswith (drop j (c # cs)) sep) \<longleftrightarrow> (\<forall>j. \<not> startswith (drop j cs) sep)"
    proof
      assume a: "\<forall>j. \<not> startswith (drop j (c # cs)) sep"
      show "\<forall>j. \<not> startswith (drop j cs) sep"
      proof
        fix j from a have "\<not> startswith (drop (Suc j) (c # cs)) sep" by blast
        then show "\<not> startswith (drop j cs) sep" by simp
      qed
    next
      assume a: "\<forall>j. \<not> startswith (drop j cs) sep"
      show "\<forall>j. \<not> startswith (drop j (c # cs)) sep"
      proof
        fix j show "\<not> startswith (drop j (c # cs)) sep"
          using a False by (cases j) simp_all
      qed
    qed
    with False Cons show ?thesis by simp
  qed
qed

lemma find_sub_first:
  "\<forall>j<length region. \<not> startswith (drop j (region @ sep @ rest)) sep \<Longrightarrow>
   find_sub sep (region @ sep @ rest) = Some (length region)"
proof (induction region)
  case Nil
  have "startswith (sep @ rest) sep" by (simp add: startswith_def)
  then show ?case by (cases "sep @ rest") auto
next
  case (Cons c r)
  from Cons.prems have "\<not> startswith ((c # r) @ sep @ rest) sep" by force
  moreover have "\<forall>j<length r. \<not> startswith (drop j (r @ sep @ rest)) sep"
  proof (intro allI impI)
    fix j assume "j < length r"
    with Cons.prems have "\<not> startswith (drop (Suc j) ((c # r) @ sep @ rest)) sep" by force
    then show "\<not> startswith (drop j (r @ sep @ rest)) sep" by simp
  qed
  ultimately show ?case using Cons.IH by simp
qed


lemma split_max_delim:
  assumes "startswith doc ''---''"
  shows "split_max ''---'' 2 doc =
           [] # (case find_sub ''---'' (drop 3 doc) of
                   None \<Rightarrow> [drop 3 doc]
                 | Some i \<Rightarrow> [take i (drop 3 doc), drop (i + 3) (drop 3 doc)])"
proof -
  from assms obtain c cs where c: "doc = c # cs"
    by (cases doc) (auto simp: startswith_def)
  with assms have "find_sub ''---'' doc = Some 0" by simp
  then show ?thesis by (simp add: numeral_2_eq_2 numeral_3_eq_3 split: option.split)
qed

lemma extract_frontmatter_example:
  "extract_frontmatter ''---\<newline>title: X\<newline>---\<newline>Body text'' = Inr ([(''title'', ''X'')], ''Body text'')"
  by code_simp

text \<open>
  Claim C5. \<open>extract_frontmatter\<close> never raises: it returns a mapping and a body for
  every input. When the text does not begin with \<open>---\<close>, or \<open>---\<close> does not occur a
  second time after the opening one, the result is the empty mapping and the text
  unchanged. When the text is \<open>---\<close>, a region, the next \<open>---\<close> and a rest (the region being
  cut at the first place where \<open>---\<close> occurs again), the mapping is what the specification's
  reading of the trimmed region as \<open>key: value\<close> lines gives, and the body is the trimmed
  rest. The document of the specification's example gives \<open>{title: X}\<close> and \<open>Body text\<close>.
\<close>

theorem extract_frontmatter_spec:
  "(\<exists>fm body. extract_frontmatter doc = Inr (fm, body))
   \<and> (\<not> startswith doc ''---'' \<or> (\<forall>j. \<not> startswith (drop (3 + j) doc) ''---'')
        \<longrightarrow> extract_frontmatter doc = Inr ([], doc))
   \<and> (doc = ''---'' @ region @ ''---'' @ rest
        \<and> (\<forall>j<length region. \<not> startswith (drop j (region @ ''---'' @ rest)) ''---'')
        \<longrightarrow> extract_frontmatter doc =
              Inr (spec_frontmatter (split_char CHR ''\<newline>'' (strip region)), strip rest))
   \<and> extract_frontmatter ''---\<newline>title: X\<newline>---\<newline>Body text'' = Inr ([(''title'', ''X'')], ''Body text'')"
proof (intro conjI impI)
  show "\<exists>fm body. extract_frontmatter doc = Inr (fm, body)"
    by (simp add: extract_frontmatter_def frontmatter_loop_spec Let_def)
next
  assume nf: "\<not> startswith doc ''---'' \<or> (\<forall>j. \<not> startswith (drop (3 + j) doc) ''---'')"
  show "extract_frontmatter doc = Inr ([], doc)"
  proof (cases "startswith doc ''---''")
    case False
    then show ?thesis by (simp add: extract_frontmatter_def)
  next
    case True
    with nf have "\<forall>j. \<not> startswith (drop j (drop 3 doc)) ''---''"
      by (simp add: add.commute)
    then have "find_sub ''---'' (drop 3 doc) = None"
      by (simp add: find_sub_None)
    with True show ?thesis
      by (simp add: extract_frontmatter_def split_max_delim)
  qed
next
  assume "doc = ''---'' @ region @ ''---'' @ rest
        \<and> (\<forall>j<length region. \<not> startswith (drop j (region @ ''---'' @ rest)) ''---'')"
  then have c: "doc = ''---'' @ region @ ''---'' @ rest"
    and first: "\<forall>j<length region. \<not> startswith (drop j (region @ ''---'' @ rest)) ''---''"
    by blast+
  from c have sw: "startswith doc ''---''" by (simp add: startswith_def)
  from c have d3: "drop 3 doc = region @ ''---'' @ rest" by simp
  from find_sub_first[OF first] have "find_sub ''---'' (drop 3 doc) = Some (length region)"
    unfolding d3 .
  then have "split_max ''---'' 2 doc = [[], region, rest]"
    by (simp add: split_max_delim[OF sw] d3)
  with sw show "extract_frontmatter doc =
      Inr (spec_frontmatter (split_char CHR ''\<newline>'' (strip region)), strip rest)"
    by (simp add: extract_frontmatter_def frontmatter_loop_spec spec_frontmatter_def)
next
  show "extract_frontmatter ''---\<newline>title: X\<newline>---\<newline>Body text'' = Inr ([(''title'', ''X'')], ''Body text'')"
    by (rule extract_frontmatter_example)
qed


theorem extract_frontmatter_spec_witness:
  "\<not> startswith ''Title: X\<newline>---\<newline>hello world'' ''---''
   \<and> extract_frontmatter ''Title: X\<newline>---\<newline>hello world'' = Inr ([], ''Title: X\<newline>---\<newline>hello world'')
   \<and> extract_frontmatter (''---'' @ ''\<newline>title: X\<newline>'' @ ''---'' @ ''\<newline>Body text'') =
         Inr (spec_frontmatter (split_char CHR ''\<newline>'' (strip ''\<newline>title: X\<newline>'')), strip ''\<newline>Body text'')
   \<and> spec_frontmatter (split_char CHR ''\<newline>'' (strip ''\<newline>title: X\<newline>'')) = [(''title'', ''X'')]
   \<and> strip ''\<newline>Body text'' = ''Body text''"
proof -
  have h1: "\<not> startswith ''Title: X\<newline>---\<newline>hello world'' ''---''"
    by (simp add: startswith_def)
  have h2: "\<forall>j<length ''\<newline>title: X\<newline>''.
          \<not> startswith (drop j (''\<newline>title: X\<newline>'' @ ''---'' @ ''\<newline>Body text'')) ''---''"
    by (simp add: startswith_def All_less_Suc eval_nat_numeral)
  have v1: "spec_frontmatter (split_char CHR ''\<newline>'' (strip ''\<newline>title: X\<newline>'')) = [(''title'', ''X'')]"
    by code_simp
  have v2: "strip ''\<newline>Body text'' = ''Body text''"
    by code_simp
  from extract_frontmatter_spec[of "''Title: X\<newline>---\<newline>hello world''"] h1
  have a: "extract_frontmatter ''Title: X\<newline>---\<newline>hello world'' = Inr ([], ''Title: X\<newline>---\<newline>hello world'')"
    by blast
  from extract_frontmatter_spec[of "''---'' @ ''\<newline>title: X\<newline>'' @ ''---'' @ ''\<newline>Body text''"
      "''\<newline>title: X\<newline>''" "''\<newline>Body text''"] h2
  have b: "extract_frontmatter (''---'' @ ''\<newline>title: X\<newline>'' @ ''---'' @ ''\<newline>Body text'') =
         Inr (spec_frontmatter (split_char CHR ''\<newline>'' (strip ''\<newline>title: X\<newline>'')), strip ''\<newline>Body text'')"
    by blast
  from h1 a b v1 v2 show ?thesis by (intro conjI)
qed

section \<open>Properties of the chunk identifier\<close>

lemma digits_chars: "c \<in> set (digits n) \<Longrightarrow> 48 \<le> (of_char c :: nat) \<and> (of_char c :: nat) \<le> 57"
proof (induction n rule: digits.induct)
  case (1 n)
  show ?case
  proof (cases "n < 10")
    case True
    with "1.prems" have "c = char_of (48 + n)" by (subst (asm) digits.simps) simp
    with True show ?thesis by simp
  next
    case False
    with "1.prems" have "c \<in> set (digits (n div 10)) \<or> c = char_of (48 + n mod 10)"
      by (subst (asm) digits.simps) auto
    then show ?thesis
    proof
      assume "c \<in> set (digits (n div 10))"
      with "1.IH"[OF False] show ?thesis .
    next
      assume c: "c = char_of (48 + n mod 10)"
      have "n mod 10 < 10" by simp
      then have "(48 + n mod 10) mod 256 = 48 + n mod 10" by simp
      with c show ?thesis by simp
    qed
  qed
qed

lemma digits_nonempty: "digits n \<noteq> []"
  by (subst digits.simps) simp

lemma digits_inj: "digits n = digits m \<Longrightarrow> n = m"
proof (induction n arbitrary: m rule: digits.induct)
  case (1 n)
  have last_digit: "of_char (char_of (48 + k mod 10)) = 48 + k mod 10" for k :: nat
  proof -
    have "k mod 10 < 10" by simp
    then show ?thesis by simp
  qed
  show ?case
  proof (cases "n < 10")
    case n: True
    show ?thesis
    proof (cases "m < 10")
      case True
      with n "1.prems" have "char_of (48 + n) = char_of (48 + m)"
        by (simp add: digits.simps[of n] digits.simps[of m])
      then have "(of_char (char_of (48 + n)) :: nat) = of_char (char_of (48 + m))" by simp
      with n True show ?thesis by simp
    next
      case False
      with n "1.prems" have "[char_of (48 + n)] = digits (m div 10) @ [char_of (48 + m mod 10)]"
        by (simp add: digits.simps[of n] digits.simps[of m])
      then have "digits (m div 10) = []" by simp
      with digits_nonempty show ?thesis by blast
    qed
  next
    case n: False
    show ?thesis
    proof (cases "m < 10")
      case True
      with n "1.prems" have "digits (n div 10) @ [char_of (48 + n mod 10)] = [char_of (48 + m)]"
        by (simp add: digits.simps[of n] digits.simps[of m])
      then have "digits (n div 10) = []" by simp
      with digits_nonempty show ?thesis by blast
    next
      case False
      with n "1.prems" have "digits (n div 10) @ [char_of (48 + n mod 10)]
          = digits (m div 10) @ [char_of (48 + m mod 10)]"
        by (simp add: digits.simps[of n] digits.simps[of m])
      then have d: "digits (n div 10) = digits (m div 10)"
        and c: "char_of (48 + n mod 10) = char_of (48 + m mod 10)" by simp_all
      from "1.IH"[OF n d] have q: "n div 10 = m div 10" .
      from c have "(of_char (char_of (48 + n mod 10)) :: nat) = of_char (char_of (48 + m mod 10))"
        by simp
      then have "n mod 10 = m mod 10" unfolding last_digit by simp
      with q show ?thesis by (metis div_mult_mod_eq)
    qed
  qed
qed

lemma str_int_inj: "str_int i = str_int j \<Longrightarrow> i = j"
proof -
  assume eq: "str_int i = str_int j"
  have no_minus: "CHR ''-'' # xs \<noteq> digits n" for xs n
  proof
    assume "CHR ''-'' # xs = digits n"
    then have "CHR ''-'' \<in> set (digits n)" by (metis list.set_intros(1))
    from digits_chars[OF this] show False by simp
  qed
  show "i = j"
  proof (cases "i < 0"; cases "j < 0")
    assume "i < 0" "j < 0"
    with eq have "digits (nat (- i)) = digits (nat (- j))" by (simp add: str_int_def)
    from digits_inj[OF this] \<open>i < 0\<close> \<open>j < 0\<close> show ?thesis by simp
  next
    assume "i < 0" "\<not> j < 0"
    with eq no_minus show ?thesis by (simp add: str_int_def)
  next
    assume "\<not> i < 0" "j < 0"
    with eq no_minus[of "digits (nat (- j))" "nat i"] show ?thesis by (simp add: str_int_def)
  next
    assume "\<not> i < 0" "\<not> j < 0"
    with eq have "digits (nat i) = digits (nat j)" by (simp add: str_int_def)
    from digits_inj[OF this] \<open>\<not> i < 0\<close> \<open>\<not> j < 0\<close> show ?thesis by simp
  qed
qed

lemma str_int_chars: "CHR ''_'' \<notin> set (str_int i)"
proof
  assume "CHR ''_'' \<in> set (str_int i)"
  then have "CHR ''_'' \<in> set (digits (nat (- i))) \<or> CHR ''_'' \<in> set (digits (nat i))"
    by (auto simp: str_int_def split: if_splits)
  with digits_chars[of "CHR ''_''"] show False by auto
qed

lemma cut_at_first:
  "c \<notin> set a \<Longrightarrow> c \<notin> set a' \<Longrightarrow> a @ c # x = a' @ c # x' \<Longrightarrow> a = a' \<and> x = x'"
proof (induction a arbitrary: a')
  case Nil
  then show ?case by (cases a') auto
next
  case (Cons y a)
  then show ?case by (cases a') auto
qed


lemma unique_string_index:
  "unique_string p r i = unique_string p r j \<Longrightarrow> i = j"
  by (simp add: unique_string_def str_int_inj)

lemma unique_string_inj:
  assumes "CHR '':'' \<notin> set r" "CHR '':'' \<notin> set r'"
    and eq: "unique_string p r i = unique_string p' r' i'"
  shows "p = p' \<and> r = r' \<and> i = i'"
proof -
  from eq have "r @ CHR '':'' # (p @ '':chunk_'' @ str_int i) = r' @ CHR '':'' # (p' @ '':chunk_'' @ str_int i')"
    by (simp add: unique_string_def)
  from cut_at_first[OF assms(1,2) this]
  have r: "r = r'" and rest: "p @ '':chunk_'' @ str_int i = p' @ '':chunk_'' @ str_int i'" by blast+
  from rest have "rev (p @ '':chunk_'' @ str_int i) = rev (p' @ '':chunk_'' @ str_int i')" by simp
  then have "rev (str_int i) @ CHR ''_'' # (''knuhc:'' @ rev p)
           = rev (str_int i') @ CHR ''_'' # (''knuhc:'' @ rev p')" by simp
  from cut_at_first[OF _ _ this] str_int_chars
  have "rev (str_int i) = rev (str_int i')" and "''knuhc:'' @ rev p = ''knuhc:'' @ rev p'"
    by simp_all
  then have "str_int i = str_int i'" and "p = p'" by simp_all
  with r str_int_inj show ?thesis by blast
qed

text \<open>
  Claim C4, as amended. \<open>generate_point_id\<close> is the hash of the string
  \<open>repo:path:chunk_<index>\<close> and of nothing else, so the same triple always gives the
  same identifier. For one \<open>(repo, path)\<close> two chunk indexes never give the same
  string, and triples whose repos contain no colon give the same string only when they
  are the same triple. Identifiers are equal exactly when the strings are, for a hash
  without collisions.
\<close>

theorem generate_point_id_key:
  "generate_point_id md5_hex p r i = md5_hex (r @ '':'' @ p @ '':chunk_'' @ str_int i)
   \<and> (unique_string p r i = unique_string p r j \<longleftrightarrow> i = j)
   \<and> (CHR '':'' \<notin> set r \<and> CHR '':'' \<notin> set r' \<longrightarrow>
        (unique_string p r i = unique_string p' r' i' \<longleftrightarrow> (p, r, i) = (p', r', i')))
   \<and> (inj md5_hex \<longrightarrow>
        (generate_point_id md5_hex p r i = generate_point_id md5_hex p' r' i'
           \<longleftrightarrow> unique_string p r i = unique_string p' r' i'))"
proof (intro conjI impI)
  show "generate_point_id md5_hex p r i = md5_hex (r @ '':'' @ p @ '':chunk_'' @ str_int i)"
    by (simp add: generate_point_id_def unique_string_def)
  show "unique_string p r i = unique_string p r j \<longleftrightarrow> i = j"
    using unique_string_index by blast
  show "unique_string p r i = unique_string p' r' i' \<longleftrightarrow> (p, r, i) = (p', r', i')"
    if colon: "CHR '':'' \<notin> set r \<and> CHR '':'' \<notin> set r'"
  proof
    assume "unique_string p r i = unique_string p' r' i'"
    from unique_string_inj[OF conjunct1[OF colon] conjunct2[OF colon] this]
    show "(p, r, i) = (p', r', i')" by (simp only: prod.inject)
  next
    assume "(p, r, i) = (p', r', i')"
    then show "unique_string p r i = unique_string p' r' i'" by (simp only: prod.inject)
  qed
  show "generate_point_id md5_hex p r i = generate_point_id md5_hex p' r' i'
           \<longleftrightarrow> unique_string p r i = unique_string p' r' i'" if "inj md5_hex"
    unfolding generate_point_id_def by (rule inj_eq[OF that])
qed

theorem generate_point_id_key_witness:
  "CHR '':'' \<notin> set ''kb'' \<and> inj (\<lambda>s :: string. s)
   \<and> generate_point_id (\<lambda>s. s) ''docs/a.md'' ''kb'' 3 = ''kb:docs/a.md:chunk_3''
   \<and> (generate_point_id (\<lambda>s. s) ''docs/a.md'' ''kb'' 3 = generate_point_id (\<lambda>s. s) ''docs/a.md'' ''kb'' 4
        \<longleftrightarrow> (''docs/a.md'', ''kb'', 3::int) = (''docs/a.md'', ''kb'', 4))"
proof -
  have h1: "CHR '':'' \<notin> set ''kb''" by simp
  have h2: "inj (\<lambda>s :: string. s)" by (simp add: inj_def)
  have v: "str_int 3 = ''3''" by code_simp
  note key = generate_point_id_key[of "\<lambda>s. s" "''docs/a.md''" "''kb''" 3 4 "''kb''" "''docs/a.md''" 4]
  from key[THEN conjunct1] v
  have a: "generate_point_id (\<lambda>s. s) ''docs/a.md'' ''kb'' 3 = ''kb:docs/a.md:chunk_3''"
    by simp
  note b = key[THEN conjunct2, THEN conjunct2, THEN conjunct1, THEN mp, OF conjI, OF h1 h1]
  note c = key[THEN conjunct2, THEN conjunct2, THEN conjunct2, THEN mp, OF h2]
  from c b have d: "generate_point_id (\<lambda>s. s) ''docs/a.md'' ''kb'' 3 = generate_point_id (\<lambda>s. s) ''docs/a.md'' ''kb'' 4
        \<longleftrightarrow> (''docs/a.md'', ''kb'', 3::int) = (''docs/a.md'', ''kb'', 4)"
    by (rule trans)
  from h1 h2 a d show ?thesis by (intro conjI)
qed

text \<open>The claim as stated fails: a colon may sit in the repo or in the path, so two
  different triples can give one string and therefore one identifier, whatever the hash
  function is.\<close>

theorem generate_point_id_colon_counterexample:
  "(''b:c'', ''a'', 0::int) \<noteq> (''c'', ''a:b'', 0)
   \<and> (\<forall>md5_hex. generate_point_id md5_hex ''b:c'' ''a'' 0 = generate_point_id md5_hex ''c'' ''a:b'' 0)"
  by (simp add: generate_point_id_def unique_string_def)

section \<open>Properties of the RAG endpoint\<close>

text \<open>
  Claim C8. A request whose provider is neither \<open>groq\<close> nor \<open>claude\<close> is rejected with
  status 400, and a request for a provider whose client is not configured with status
  503. In both cases the handler has called nothing: no embedding of the query, no
  query of the index, no language model. The handler has no other effect on the
  services.
\<close>

theorem rag_query_rejects_before_retrieval:
  assumes "llm_provider request \<notin> {''groq'', ''claude''}
           \<or> (llm_provider request = ''groq'' \<and> groq_client sv = None)
           \<or> (llm_provider request = ''claude'' \<and> anthropic_client sv = None)"
  shows "\<exists>detail. rag_query sv request =
           (Inl (HTTPException (if llm_provider request \<in> {''groq'', ''claude''} then 503 else 400) detail), [])"
  using assms by (auto simp: rag_query_def)

theorem rag_query_rejects_before_retrieval_witness:
  "''gpt'' \<notin> {''groq'', ''claude''} \<and> anthropic_client example_services = None
   \<and> (\<exists>detail. rag_query example_services \<lparr>query = ''what?'', limit = 3, llm_provider = ''gpt''\<rparr>
          = (Inl (HTTPException 400 detail), []))
   \<and> (\<exists>detail. rag_query example_services \<lparr>query = ''what?'', limit = 3, llm_provider = ''claude''\<rparr>
          = (Inl (HTTPException 503 detail), []))"
proof -
  have h1: "''gpt'' \<notin> {''groq'', ''claude''}" by simp
  have h2: "anthropic_client example_services = None" by (simp add: example_services_def)
  from rag_query_rejects_before_retrieval[of "\<lparr>query = ''what?'', limit = 3, llm_provider = ''gpt''\<rparr>" example_services] h1
  have a: "\<exists>detail. rag_query example_services \<lparr>query = ''what?'', limit = 3, llm_provider = ''gpt''\<rparr>
          = (Inl (HTTPException 400 detail), [])" by simp
  from rag_query_rejects_before_retrieval[of "\<lparr>query = ''what?'', limit = 3, llm_provider = ''claude''\<rparr>" example_services] h2
  have b: "\<exists>detail. rag_query example_services \<lparr>query = ''what?'', limit = 3, llm_provider = ''claude''\<rparr>
          = (Inl (HTTPException 503 detail), [])" by simp
  from h1 h2 a b show ?thesis by (intro conjI)
qed

text \<open>
  Claim C7. When the provider is accepted, the query has been embedded and the index
  returns no point, the handler answers with the fixed sentence and an empty source
  list; the calls it has made are the embedding and the index query, and no call to a
  language model.
\<close>

theorem rag_query_fallback:
  assumes "(llm_provider request = ''groq'' \<and> groq_client sv \<noteq> None)
           \<or> (llm_provider request = ''claude'' \<and> anthropic_client sv \<noteq> None)"
    and "embed sv (query request) = Inr v"
    and "query_points sv v (limit request) = Inr []"
  shows "rag_query sv request =
           (Inr (JObj [(''answer'', JStr (''I couldn'' @ [CHR 0x27] @
                           ''t find any relevant information to answer your question.'')),
                       (''sources'', JArr []),
                       (''query'', JStr (query request)),
                       (''llm_provider'', JStr (llm_provider request))]),
            [EmbedCall (query request), QueryCall v (limit request)])"
  using assms by (auto simp: rag_query_def)

theorem rag_query_fallback_witness:
  "llm_provider \<lparr>query = ''what?'', limit = 3, llm_provider = ''groq''\<rparr> = ''groq''
   \<and> groq_client example_services \<noteq> None
   \<and> embed example_services ''what?'' = Inr [5]
   \<and> query_points example_services [5] 3 = Inr []
   \<and> rag_query example_services \<lparr>query = ''what?'', limit = 3, llm_provider = ''groq''\<rparr> =
           (Inr (JObj [(''answer'', JStr (''I couldn'' @ [CHR 0x27] @
                           ''t find any relevant information to answer your question.'')),
                       (''sources'', JArr []),
                       (''query'', JStr ''what?''),
                       (''llm_provider'', JStr ''groq'')]),
            [EmbedCall ''what?'', QueryCall [5] 3])"
proof -
  let ?rq = "\<lparr>query = ''what?'', limit = 3, llm_provider = ''groq''\<rparr>"
  have h1: "(llm_provider ?rq = ''groq'' \<and> groq_client example_services \<noteq> None)
           \<or> (llm_provider ?rq = ''claude'' \<and> anthropic_client example_services \<noteq> None)"
    by (simp add: example_services_def)
  have h2: "embed example_services (query ?rq) = Inr [5]" by (simp add: example_services_def)
  have h3: "query_points example_services [5] (limit ?rq) = Inr []" by (simp add: example_services_def)
  from rag_query_fallback[OF h1 h2 h3] h2 h3 show ?thesis
    by (simp add: example_services_def)
qed

text \<open>A successful run either stops after the index query, with a response of four
  fields, or ends with one call to a language model and a response of six fields.\<close>

lemma rag_query_success_cases:
  assumes "rag_query sv request = (Inr response, calls)"
  shows "(\<exists>v. calls = [EmbedCall (query request), QueryCall v (limit request)]
            \<and> (\<exists>fields. response = JObj fields
                  \<and> map fst fields = [''answer'', ''sources'', ''query'', ''llm_provider'']))
       \<or> (\<exists>v s u llm. calls = [EmbedCall (query request), QueryCall v (limit request), llm]
            \<and> (llm = GroqCall s u \<or> llm = ClaudeCall s u)
            \<and> (\<exists>fields. response = JObj fields
                  \<and> map fst fields =
                      [''answer'', ''sources'', ''query'', ''chunks_used'', ''llm_provider'', ''model_used'']))"
  using assms
  by (auto simp: rag_query_def rag_response_def Let_def
      split: if_splits sum.splits option.splits prod.splits)

text \<open>
  Claim C6, as amended. Every successful response is an object with the fields
  \<open>answer\<close>, \<open>sources\<close>, \<open>query\<close> and \<open>llm_provider\<close>; a response that follows a call
  to a language model has exactly the six fields \<open>answer\<close>, \<open>sources\<close>, \<open>query\<close>,
  \<open>chunks_used\<close>, \<open>llm_provider\<close> and \<open>model_used\<close>.
\<close>

theorem rag_query_response_fields:
  assumes "rag_query sv request = (Inr response, calls)"
  shows "\<exists>fields. response = JObj fields
          \<and> set [''answer'', ''sources'', ''query'', ''llm_provider''] \<subseteq> set (map fst fields)
          \<and> ((\<exists>s u. GroqCall s u \<in> set calls \<or> ClaudeCall s u \<in> set calls) \<longrightarrow>
                map fst fields =
                  [''answer'', ''sources'', ''query'', ''chunks_used'', ''llm_provider'', ''model_used''])"
  using rag_query_success_cases[OF assms] by auto

theorem rag_query_response_fields_witness:
  "\<exists>response calls.
     rag_query (example_services\<lparr>query_points := \<lambda>v n.
                  Inr [\<lparr>sp_payload = [(''title'', PStr ''Guide''), (''full_chunk'', PStr ''hello world''),
                                       (''path'', PStr ''a.md''), (''chunk_index'', PInt 0),
                                       (''total_chunks'', PInt 1)],
                        score = 9\<rparr>]\<rparr>)
       \<lparr>query = ''what?'', limit = 3, llm_provider = ''groq''\<rparr> = (Inr response, calls)
     \<and> (\<exists>s u. GroqCall s u \<in> set calls)
     \<and> (\<exists>fields. response = JObj fields
           \<and> map fst fields =
                 [''answer'', ''sources'', ''query'', ''chunks_used'', ''llm_provider'', ''model_used''])"
proof -
  let ?sv = "example_services\<lparr>query_points := \<lambda>v n.
                  Inr [\<lparr>sp_payload = [(''title'', PStr ''Guide''), (''full_chunk'', PStr ''hello world''),
                                       (''path'', PStr ''a.md''), (''chunk_index'', PInt 0),
                                       (''total_chunks'', PInt 1)],
                        score = 9\<rparr>]\<rparr>"
  let ?rq = "\<lparr>query = ''what?'', limit = 3, llm_provider = ''groq''\<rparr>"
  have "\<exists>response s u. rag_query ?sv ?rq =
          (Inr response, [EmbedCall ''what?'', QueryCall [5] 3, GroqCall s u])"
    by (simp add: rag_query_def example_services_def Let_def dict_get_def)
  then obtain response where "\<exists>s u. rag_query ?sv ?rq =
          (Inr response, [EmbedCall ''what?'', QueryCall [5] 3, GroqCall s u])" ..
  then obtain s where "\<exists>u. rag_query ?sv ?rq =
          (Inr response, [EmbedCall ''what?'', QueryCall [5] 3, GroqCall s u])" ..
  then obtain u where run0: "rag_query ?sv ?rq =
          (Inr response, [EmbedCall ''what?'', QueryCall [5] 3, GroqCall s u])" ..
  define calls :: "int list call list"
    where "calls = [EmbedCall ''what?'', QueryCall [5] 3, GroqCall s u]"
  have run: "rag_query ?sv ?rq = (Inr response, calls)"
    unfolding calls_def by (rule run0)
  have "GroqCall s u \<in> set calls" by (simp add: calls_def)
  then have llm: "\<exists>s u. GroqCall s u \<in> set calls" by (intro exI)
  then have llm': "\<exists>s u. GroqCall s u \<in> set calls \<or> ClaudeCall s u \<in> set calls"
    by (elim exE) (intro exI disjI1)
  from rag_query_response_fields[OF run] obtain fields where
    f: "response = JObj fields
          \<and> set [''answer'', ''sources'', ''query'', ''llm_provider''] \<subseteq> set (map fst fields)
          \<and> ((\<exists>s u. GroqCall s u \<in> set calls \<or> ClaudeCall s u \<in> set calls) \<longrightarrow>
                map fst fields =
                  [''answer'', ''sources'', ''query'', ''chunks_used'', ''llm_provider'', ''model_used''])" ..
  note six = f[THEN conjunct2, THEN conjunct2, THEN mp, OF llm']
  have "\<exists>fields. response = JObj fields
           \<and> map fst fields =
                 [''answer'', ''sources'', ''query'', ''chunks_used'', ''llm_provider'', ''model_used'']"
    by (rule exI[of _ fields], rule conjI, rule f[THEN conjunct1], rule six)
  with run llm show ?thesis
    by (intro exI[of _ response] exI[of _ calls] conjI)
qed

text \<open>
  The claim as stated fails on the fallback response. On the run below the index returns
  no point; the response is successful and has the fields \<open>answer\<close>, \<open>sources\<close>,
  \<open>query\<close> and \<open>llm_provider\<close>, but neither \<open>chunks_used\<close> nor \<open>model_used\<close>.
\<close>

theorem rag_query_fallback_fields_counterexample:
  "\<exists>fields calls.
     rag_query example_services \<lparr>query = ''what?'', limit = 3, llm_provider = ''groq''\<rparr> = (Inr (JObj fields), calls)
     \<and> map fst fields = [''answer'', ''sources'', ''query'', ''llm_provider'']
     \<and> ''chunks_used'' \<notin> set (map fst fields) \<and> ''model_used'' \<notin> set (map fst fields)"
  by (simp add: rag_query_def example_services_def)

section \<open>Properties of the ingest endpoint\<close>

lemma extract_frontmatter_total: "\<exists>fm body. extract_frontmatter doc = Inr (fm, body)"
  by (simp add: extract_frontmatter_def frontmatter_loop_spec Let_def)

lemma split_into_chunks_returns:
  assumes "overlap < chunk_size"
  shows "\<exists>chunks. split_into_chunks text chunk_size overlap = Some chunks"
proof (cases "int (length (split_ws text)) \<le> chunk_size")
  case True
  then show ?thesis by (simp add: split_into_chunks_def)
next
  case False
  with chunk_loop_windows[OF assms, of "split_ws text" 0 "[]"] show ?thesis
    by (auto simp: split_into_chunks_def)
qed

lemma embed_loop_all:
  "\<forall>c\<in>set chunks. \<exists>v. embed sv c = Inr v \<Longrightarrow>
   \<exists>pts. embed_loop sv pl fm n idx chunks points = (Inr (points @ pts), map EmbedCall chunks)
         \<and> length pts = length chunks"
proof (induction chunks arbitrary: idx points)
  case Nil
  show ?case by simp
next
  case (Cons chunk chunks)
  then obtain v where v: "embed sv chunk = Inr v" by auto
  define point where "point = \<lparr>id' = generate_point_id (md5_hexdigest sv) (path pl) (repo pl) (int idx),
      vector = v,
      payload = [(''path'', PStr (path pl)), (''repo'', PStr (repo pl)), (''commit'', PStr (commit pl)),
                 (''title'', PStr (dict_get fm ''title'' [])),
                 (''description'', PStr (dict_get fm ''description'' [])),
                 (''tags'', PStr (dict_get fm ''tags'' [])),
                 (''chunk_index'', PInt (int idx)), (''total_chunks'', PInt (int n)),
                 (''content'', PStr (take 500 chunk)), (''full_chunk'', PStr chunk)]\<rparr>"
  from Cons.prems have "\<forall>c\<in>set chunks. \<exists>v. embed sv c = Inr v" by simp
  from Cons.IH[OF this, of "Suc idx" "points @ [point]"] obtain pts where
    pts: "embed_loop sv pl fm n (Suc idx) chunks (points @ [point]) = (Inr ((points @ [point]) @ pts), map EmbedCall chunks)"
    and len: "length pts = length chunks" by blast
  from v pts have "embed_loop sv pl fm n idx (chunk # chunks) points
      = (Inr (points @ (point # pts)), map EmbedCall (chunk # chunks))"
    by (simp add: Let_def point_def)
  with len show ?case by (intro exI[of _ "point # pts"]) simp
qed

lemma embed_loop_fail:
  "\<exists>c\<in>set chunks. \<exists>e. embed sv c = Inl e \<Longrightarrow>
   \<exists>e k. k \<le> length chunks \<and> embed_loop sv pl fm n idx chunks points = (Inl e, map EmbedCall (take k chunks))"
proof (induction chunks arbitrary: idx points)
  case Nil
  then show ?case by simp
next
  case (Cons chunk chunks)
  show ?case
  proof (cases "embed sv chunk")
    case (Inl e)
    then have "embed_loop sv pl fm n idx (chunk # chunks) points = (Inl e, map EmbedCall (take 1 (chunk # chunks)))"
      by simp
    then show ?thesis by (intro exI[of _ e] exI[of _ 1]) simp
  next
    case (Inr v)
    with Cons.prems have "\<exists>c\<in>set chunks. \<exists>e. embed sv c = Inl e" by auto
    from Cons.IH[OF this] obtain e k where k: "k \<le> length chunks"
      and r: "embed_loop sv pl fm n (Suc idx) chunks
                (points @ [\<lparr>id' = generate_point_id (md5_hexdigest sv) (path pl) (repo pl) (int idx),
      vector = v,
      payload = [(''path'', PStr (path pl)), (''repo'', PStr (repo pl)), (''commit'', PStr (commit pl)),
                 (''title'', PStr (dict_get fm ''title'' [])),
                 (''description'', PStr (dict_get fm ''description'' [])),
                 (''tags'', PStr (dict_get fm ''tags'' [])),
                 (''chunk_index'', PInt (int idx)), (''total_chunks'', PInt (int n)),
                 (''content'', PStr (take 500 chunk)), (''full_chunk'', PStr chunk)]\<rparr>])
             = (Inl e, map EmbedCall (take k chunks))" by blast
    from Inr r have "embed_loop sv pl fm n idx (chunk # chunks) points
        = (Inl e, map EmbedCall (take (Suc k) (chunk # chunks)))"
      by (simp add: Let_def)
    with k show ?thesis by (intro exI[of _ e] exI[of _ "Suc k"]) simp
  qed
qed

text \<open>
  Claim C10. An ingestion that is not a delete, with a valid token, always returns. Its
  calls are the embeddings of the chunks, in order, followed by at most one \<open>upsert\<close>.
  When every chunk can be embedded, the one \<open>upsert\<close> call comes after all embeddings,
  carries one point per chunk, and the index afterwards is whatever that call leaves.
  When the embedding of some chunk fails, the request fails with status 500, no \<open>upsert\<close>
  is called and the index is unchanged. Frontmatter extraction and chunking cannot fail
  here: the first never raises, the second returns for the default parameters.
\<close>

theorem ingest_document_single_upsert:
  assumes tok: "x_ingest_token = Some t" "t \<noteq> []" "INGEST_API_SECRET sv = Some t"
    and nd: "\<not> deleted pl"
  shows "\<exists>fm clean chunks res ix' calls.
           extract_frontmatter (content pl) = Inr (fm, clean)
         \<and> split_into_chunks clean CHUNK_SIZE CHUNK_OVERLAP = Some chunks
         \<and> ingest_document sv ix pl x_ingest_token = Some (res, ix', calls)
         \<and> ((\<forall>c\<in>set chunks. \<exists>v. embed sv c = Inr v) \<longrightarrow>
              (\<exists>points. length points = length chunks
                 \<and> calls = map EmbedCall chunks @ [UpsertCall points]
                 \<and> ix' = snd (upsert sv ix points)))
         \<and> ((\<exists>c\<in>set chunks. \<exists>e. embed sv c = Inl e) \<longrightarrow>
              ix' = ix \<and> (\<exists>k\<le>length chunks. calls = map EmbedCall (take k chunks))
              \<and> (\<exists>d. res = Inl (HTTPException 500 d)))"
proof -
  from extract_frontmatter_total obtain fm clean where
    fm: "extract_frontmatter (content pl) = Inr (fm, clean)" by blast
  have "CHUNK_OVERLAP < CHUNK_SIZE" by (simp add: CHUNK_OVERLAP_def CHUNK_SIZE_def)
  from split_into_chunks_returns[OF this] obtain chunks where
    ch: "split_into_chunks clean CHUNK_SIZE CHUNK_OVERLAP = Some chunks" by blast
  from tok nd have run: "ingest_document sv ix pl x_ingest_token = ingest_document_upsert sv ix pl"
    by (simp add: ingest_document_def)
  show ?thesis
  proof (cases "\<forall>c\<in>set chunks. \<exists>v. embed sv c = Inr v")
    case True
    from embed_loop_all[OF this, of pl fm "length chunks" 0 "[]"] obtain points where
      loop: "embed_loop sv pl fm (length chunks) 0 chunks [] = (Inr points, map EmbedCall chunks)"
      and len: "length points = length chunks" by auto
    obtain err ix' where up: "upsert sv ix points = (err, ix')" by (cases "upsert sv ix points")
    from fm ch loop up have "\<exists>res. ingest_document_upsert sv ix pl =
        Some (res, ix', map EmbedCall chunks @ [UpsertCall points])"
      by (cases err) (simp_all add: ingest_document_upsert_def Let_def)
    then obtain res where "ingest_document sv ix pl x_ingest_token =
        Some (res, ix', map EmbedCall chunks @ [UpsertCall points])" unfolding run ..
    moreover from up have "ix' = snd (upsert sv ix points)" by simp
    moreover from True have "\<not> (\<exists>c\<in>set chunks. \<exists>e. embed sv c = Inl e)" by auto
    ultimately show ?thesis using fm ch len by blast
  next
    case False
    then have fails: "\<exists>c\<in>set chunks. \<exists>e. embed sv c = Inl e"
      by (metis sum.exhaust)
    from embed_loop_fail[OF this, of pl fm "length chunks" 0 "[]"] obtain e k where
      k: "k \<le> length chunks"
      and loop: "embed_loop sv pl fm (length chunks) 0 chunks [] = (Inl e, map EmbedCall (take k chunks))"
      by blast
    from fm ch loop have "ingest_document_upsert sv ix pl =
        Some (Inl (HTTPException 500 (''Ingestion failed: '' @ e)), ix, map EmbedCall (take k chunks))"
      by (simp add: ingest_document_upsert_def Let_def)
    then have "ingest_document sv ix pl x_ingest_token =
        Some (Inl (HTTPException 500 (''Ingestion failed: '' @ e)), ix, map EmbedCall (take k chunks))"
      unfolding run .
    with fm ch k False show ?thesis by blast
  qed
qed


theorem ingest_document_single_upsert_witness:
  "INGEST_API_SECRET example_services = Some ''secret''
   \<and> \<not> deleted \<lparr>path = ''a.md'', repo = ''kb'', commit = ''c1'', deleted = False,
                  content = ''---\<newline>title: T\<newline>---\<newline>hello world''\<rparr>
   \<and> (\<forall>c. \<exists>v. embed example_services c = Inr v)
   \<and> (\<exists>res ix' points.
         ingest_document example_services []
           \<lparr>path = ''a.md'', repo = ''kb'', commit = ''c1'', deleted = False,
            content = ''---\<newline>title: T\<newline>---\<newline>hello world''\<rparr> (Some ''secret'')
           = Some (res, ix', [EmbedCall ''hello world'', UpsertCall points])
         \<and> length points = 1 \<and> ix' = snd (upsert example_services [] points))
   \<and> (\<forall>c. \<exists>e. embed (example_services\<lparr>embed := \<lambda>s. Inl ''model unavailable''\<rparr>) c = Inl e)
   \<and> (\<exists>d calls.
         ingest_document (example_services\<lparr>embed := \<lambda>s. Inl ''model unavailable''\<rparr>)
           (ingested_points ''b.md'' ''kb'' 2)
           \<lparr>path = ''a.md'', repo = ''kb'', commit = ''c1'', deleted = False,
            content = ''---\<newline>title: T\<newline>---\<newline>hello world''\<rparr> (Some ''secret'')
           = Some (Inl (HTTPException 500 d), ingested_points ''b.md'' ''kb'' 2, calls)
         \<and> (\<forall>c\<in>set calls. c = EmbedCall ''hello world''))"
proof -
  let ?pl = "\<lparr>path = ''a.md'', repo = ''kb'', commit = ''c1'', deleted = False,
              content = ''---\<newline>title: T\<newline>---\<newline>hello world''\<rparr>"
  let ?down = "example_services\<lparr>embed := \<lambda>s. Inl ''model unavailable''\<rparr>"
  have secret: "INGEST_API_SECRET example_services = Some ''secret''"
    and secret': "INGEST_API_SECRET ?down = Some ''secret''"
    and nd: "\<not> deleted ?pl"
    and up: "\<forall>c. \<exists>v. embed example_services c = Inr v"
    and down: "\<forall>c. \<exists>e. embed ?down c = Inl e"
    by (simp_all add: example_services_def)
  have fm: "extract_frontmatter (content ?pl) = Inr ([(''title'', ''T'')], ''hello world'')"
    by code_simp
  have ch: "split_into_chunks ''hello world'' CHUNK_SIZE CHUNK_OVERLAP = Some [''hello world'']"
    by (simp add: split_into_chunks_def split_ws_def is_space_def CHUNK_SIZE_def)
  from ingest_document_single_upsert[OF refl _ secret nd, of "[]"] fm ch up
  have a: "\<exists>res ix' points.
         ingest_document example_services [] ?pl (Some ''secret'')
           = Some (res, ix', [EmbedCall ''hello world'', UpsertCall points])
         \<and> length points = 1 \<and> ix' = snd (upsert example_services [] points)"
    by fastforce
  from ingest_document_single_upsert[OF refl _ secret' nd, of "ingested_points ''b.md'' ''kb'' 2"] fm ch down
  have b: "\<exists>d calls.
         ingest_document ?down (ingested_points ''b.md'' ''kb'' 2) ?pl (Some ''secret'')
           = Some (Inl (HTTPException 500 d), ingested_points ''b.md'' ''kb'' 2, calls)
         \<and> (\<forall>c\<in>set calls. c = EmbedCall ''hello world'')"
  proof -
    from ingest_document_single_upsert[OF refl _ secret' nd, of "ingested_points ''b.md'' ''kb'' 2"] fm ch
    obtain res ix' calls where
      run: "ingest_document ?down (ingested_points ''b.md'' ''kb'' 2) ?pl (Some ''secret'') = Some (res, ix', calls)"
      and fail: "(\<exists>c\<in>set [''hello world'']. \<exists>e. embed ?down c = Inl e) \<longrightarrow>
              ix' = ingested_points ''b.md'' ''kb'' 2
              \<and> (\<exists>k\<le>length [''hello world'']. calls = map EmbedCall (take k [''hello world'']))
              \<and> (\<exists>d. res = Inl (HTTPException 500 d))"
      by fastforce
    from down have "\<exists>c\<in>set [''hello world'']. \<exists>e. embed ?down c = Inl e" by simp
    with fail obtain k d where "ix' = ingested_points ''b.md'' ''kb'' 2"
      "calls = map EmbedCall (take k [''hello world''])" "res = Inl (HTTPException 500 d)" by blast
    moreover have "\<forall>c\<in>set (map EmbedCall (take k [''hello world''])). c = EmbedCall ''hello world''"
      by (cases k) simp_all
    ultimately show ?thesis using run by blast
  qed
  from secret nd up a down b show ?thesis by (intro conjI)
qed

subsection \<open>Deleting a document\<close>

lemma ingest_document_deleted_list_index:
  assumes tok: "x_ingest_token = Some t" "t \<noteq> []" "INGEST_API_SECRET sv = Some t"
    and del: "deleted pl"
    and ops: "scroll sv = list_scroll" "delete sv = list_delete"
    and hits: "hits = filter (matches [(''path'', path pl), (''repo'', repo pl)]) ix"
  shows "ingest_document sv ix pl x_ingest_token =
           Some (Inr (JObj [(''status'', JStr ''success''), (''action'', JStr ''deleted''),
                            (''chunks_deleted'', JInt (int (min (length hits) 100)))]),
                 filter (\<lambda>q. id' q \<notin> set (map id' (take 100 hits))) ix,
                 ScrollCall [(''path'', path pl), (''repo'', repo pl)] 100 #
                   (if hits = [] then [] else [DeleteCall (map id' (take 100 hits))]))"
  using tok del
  by (simp add: ingest_document_def ingest_document_deleted_def ops list_scroll_def list_delete_def
      Let_def hits[symmetric])

lemma filter_ids_taken:
  "distinct (map f xs) \<Longrightarrow> filter (\<lambda>x. f x \<notin> set (map f (take k xs))) xs = drop k xs"
proof (induction xs arbitrary: k)
  case Nil
  show ?case by simp
next
  case (Cons x xs)
  show ?case
  proof (cases k)
    case 0
    then show ?thesis by simp
  next
    case (Suc k')
    from Cons.prems have notin: "f x \<notin> f ` set xs" and d: "distinct (map f xs)" by simp_all
    from notin have fresh: "\<forall>y\<in>set xs. f y \<noteq> f x" by (metis imageI)
    have "filter (\<lambda>y. f y \<notin> set (map f (take (Suc k') (x # xs)))) xs
        = filter (\<lambda>y. f y \<notin> set (map f (take k' xs))) xs"
      using fresh by (intro filter_cong) auto
    with Cons.IH[OF d, of k'] Suc show ?thesis by simp
  qed
qed

lemma ingested_points_ids:
  "map id' (ingested_points p r n) = map (\<lambda>i. unique_string p r (int i)) [0..<n]"
  by (simp add: ingested_points_def generate_point_id_def)

lemma ingested_points_distinct: "distinct (map id' (ingested_points p r n))"
  unfolding ingested_points_ids
  by (auto simp: distinct_map inj_on_def dest: unique_string_index)

lemma ingested_points_match:
  "filter (matches [(''path'', p), (''repo'', r)]) (ingested_points p r n) = ingested_points p r n"
  by (simp add: ingested_points_def matches_def filter_map comp_def)

text \<open>
  Claim C1 does not hold of the source. The delete branch reads one page of at most 100
  matching points and deletes those; it never asks for the next page. On the reference
  index holding the \<open>n\<close> points of a document, a delete request for that document
  removes the first \<open>min n 100\<close> of them, reports that number with status
  \<open>success\<close>, and leaves the others in the index: with 101 points, the point of chunk
  100 is still there afterwards. Up to 100 points the request removes all of them, and
  with none it succeeds with count 0.
\<close>

theorem ingest_document_deleted_one_page:
  "ingest_document example_services (ingested_points p r n)
     \<lparr>path = p, repo = r, commit = c, deleted = True, content = d\<rparr> (Some ''secret'') =
     Some (Inr (JObj [(''status'', JStr ''success''), (''action'', JStr ''deleted''),
                      (''chunks_deleted'', JInt (int (min n 100)))]),
           drop 100 (ingested_points p r n),
           ScrollCall [(''path'', p), (''repo'', r)] 100 #
             (if n = 0 then [] else [DeleteCall (map id' (take 100 (ingested_points p r n)))]))
   \<and> drop 100 (ingested_points ''big.md'' ''kb'' 101) =
       [\<lparr>id' = ''kb:big.md:chunk_100'', vector = [],
         payload = [(''path'', PStr ''big.md''), (''repo'', PStr ''kb''), (''chunk_index'', PInt 100),
                    (''total_chunks'', PInt 101)]\<rparr>]"
proof
  let ?pl = "\<lparr>path = p, repo = r, commit = c, deleted = True, content = d\<rparr>"
  have hits: "ingested_points p r n = filter (matches [(''path'', path ?pl), (''repo'', repo ?pl)]) (ingested_points p r n)"
    by (simp add: ingested_points_match)
  have len: "length (ingested_points p r n) = n" and emp: "ingested_points p r n = [] \<longleftrightarrow> n = 0"
    by (simp_all add: ingested_points_def)
  from ingest_document_deleted_list_index[OF refl _ _ _ _ _ hits, where sv = example_services]
  have "ingest_document example_services (ingested_points p r n) ?pl (Some ''secret'') =
           Some (Inr (JObj [(''status'', JStr ''success''), (''action'', JStr ''deleted''),
                            (''chunks_deleted'', JInt (int (min (length (ingested_points p r n)) 100)))]),
                 filter (\<lambda>q. id' q \<notin> set (map id' (take 100 (ingested_points p r n)))) (ingested_points p r n),
                 ScrollCall [(''path'', path ?pl), (''repo'', repo ?pl)] 100 #
                   (if ingested_points p r n = [] then [] else [DeleteCall (map id' (take 100 (ingested_points p r n)))]))"
    by (simp add: example_services_def)
  then show "ingest_document example_services (ingested_points p r n) ?pl (Some ''secret'') =
     Some (Inr (JObj [(''status'', JStr ''success''), (''action'', JStr ''deleted''),
                      (''chunks_deleted'', JInt (int (min n 100)))]),
           drop 100 (ingested_points p r n),
           ScrollCall [(''path'', p), (''repo'', r)] 100 #
             (if n = 0 then [] else [DeleteCall (map id' (take 100 (ingested_points p r n)))]))"
    unfolding filter_ids_taken[OF ingested_points_distinct] len emp by simp
next
  have "str_int 100 = ''100''" by code_simp
  then show "drop 100 (ingested_points ''big.md'' ''kb'' 101) =
       [\<lparr>id' = ''kb:big.md:chunk_100'', vector = [],
         payload = [(''path'', PStr ''big.md''), (''repo'', PStr ''kb''), (''chunk_index'', PInt 100),
                    (''total_chunks'', PInt 101)]\<rparr>]"
    by (simp add: ingested_points_def drop_map generate_point_id_def unique_string_def)
qed

end
